theory Spec2Isabelle
  imports Main
begin

section \<open>Data model\<close>

text \<open>
  The loaders of \<^verbatim>\<open>mirdata/datasets/haydn_op20.py\<close> turn a list of annotations
  \<^verbatim>\<open>{"time": t, "key": k}\<close> (or \<^verbatim>\<open>{"time": t, "chord": c}\<close>) into three parallel
  lists: start times, end times and labels. An annotation is modelled as the pair of its
  integer tick and the string \<^verbatim>\<open>str(k)\<close> of its label; Python integers are unbounded,
  hence \<^typ>\<open>int\<close>.
\<close>

type_synonym annotation = "int \<times> string"

abbreviation time :: "annotation \<Rightarrow> int" where
  "time \<equiv> fst"

abbreviation key :: "annotation \<Rightarrow> string" where
  "key \<equiv> snd"

abbreviation chord :: "annotation \<Rightarrow> string" where
  "chord \<equiv> snd"

text \<open>
  \<open>IndexError\<close> is what \<^verbatim>\<open>keys[0]\<close> raises on an empty list. \<open>InvalidInput\<close> is the
  condition the specification names; no statement of the source raises it.
\<close>

datatype error = IndexError | InvalidInput

text \<open>
  The three local lists \<^verbatim>\<open>start_times, end_times, key_names\<close> of a loader. They are
  what is handed to the \<^verbatim>\<open>KeyData\<close> and \<^verbatim>\<open>ChordData\<close> constructors of
  \<^verbatim>\<open>mirdata.annotations\<close>, which the module only imports; a loader is modelled up to
  that call.
\<close>

type_synonym collapsed = "int list \<times> int list \<times> string list"

text \<open>
  \<^verbatim>\<open>np.array([start_times, end_times]).T\<close>: row \<open>i\<close> of the transposed array is the
  pair of the \<open>i\<close>-th start and the \<open>i\<close>-th end. The rows are kept as the integers
  they are before \<^verbatim>\<open>astype(float)\<close>.
\<close>

definition intervals :: "collapsed \<Rightarrow> (int \<times> int) list" where
  "intervals = (\<lambda>(start_times, end_times, names). zip start_times end_times)"

section \<open>The loaders\<close>

text \<open>
  \<^verbatim>\<open>s.replace(old, new)\<close> for one-character \<^verbatim>\<open>old\<close> and \<^verbatim>\<open>new\<close>, the only way
  the source calls it: every occurrence of the character is exchanged.
\<close>

definition replace :: "char \<Rightarrow> char \<Rightarrow> string \<Rightarrow> string" where
  "replace old new s = map (\<lambda>c. if c = old then new else c) s"

text \<open>
  The body of the loop \<^verbatim>\<open>for ii, k in enumerate(keys)\<close> of \<^verbatim>\<open>load_key\<close>. The test
  compares the key with only \<^verbatim>\<open>"-"\<close> replaced against the last stored name; the name
  stored on a change has \<^verbatim>\<open>" "\<close> replaced by \<^verbatim>\<open>":"\<close> as well.
\<close>

definition key_step :: "annotation list \<Rightarrow> collapsed \<Rightarrow> nat \<times> annotation \<Rightarrow> collapsed" where
  "key_step keys = (\<lambda>(start_times, end_times, key_names) (ii, k).
     if replace CHR ''-'' CHR ''b'' (key k) \<noteq> last key_names
     then (start_times @ [time (keys ! ii)],
           end_times @ [time (keys ! ii) - 1],
           key_names @ [replace CHR '' '' CHR '':'' (replace CHR ''-'' CHR ''b'' (key (keys ! ii)))])
     else (start_times, end_times, key_names))"

definition load_key :: "annotation list \<Rightarrow> error + collapsed" where
  "load_key keys =
     (if keys = [] then Inl IndexError
      else
        let (start_times, end_times, key_names) =
              foldl (key_step keys)
                ([0], [], [replace CHR ''-'' CHR ''b'' (key (keys ! 0))])
                (enumerate 0 keys)
        in Inr (start_times, end_times @ [time (last keys)], key_names))"

text \<open>The same loop in \<^verbatim>\<open>load_chords\<close>: the chord name is compared and stored as it is.\<close>

definition chord_step :: "annotation list \<Rightarrow> collapsed \<Rightarrow> nat \<times> annotation \<Rightarrow> collapsed" where
  "chord_step chords = (\<lambda>(start_times, end_times, chord_names) (ii, k).
     if chord k \<noteq> last chord_names
     then (start_times @ [time (chords ! ii)],
           end_times @ [time (chords ! ii) - 1],
           chord_names @ [chord (chords ! ii)])
     else (start_times, end_times, chord_names))"

definition load_chords :: "annotation list \<Rightarrow> error + collapsed" where
  "load_chords chords =
     (if chords = [] then Inl IndexError
      else
        let (start_times, end_times, chord_names) =
              foldl (chord_step chords)
                ([0], [], [chord (chords ! 0)])
                (enumerate 0 chords)
        in Inr (start_times, end_times @ [time (last chords)], chord_names))"

section \<open>The loop in closed form\<close>

text \<open>
  Both loops are instances of one step: \<open>cmp\<close> is applied to the label before it is
  compared with the last stored name, \<open>store\<close> to the label before it is appended.
\<close>

definition step ::
  "(string \<Rightarrow> string) \<Rightarrow> (string \<Rightarrow> string) \<Rightarrow> collapsed \<Rightarrow> annotation \<Rightarrow> collapsed" where
  "step cmp store = (\<lambda>(start_times, end_times, names) k.
     if cmp (snd k) \<noteq> last names
     then (start_times @ [fst k], end_times @ [fst k - 1], names @ [store (snd k)])
     else (start_times, end_times, names))"

text \<open>
  The annotations at which the loop appends, that is, which open a new interval, when
  the last stored name is \<open>cur\<close>.
\<close>

fun opened ::
  "(string \<Rightarrow> string) \<Rightarrow> (string \<Rightarrow> string) \<Rightarrow> string \<Rightarrow> annotation list \<Rightarrow> annotation list" where
  "opened cmp store cur [] = []"
| "opened cmp store cur (k # ks) =
     (if cmp (snd k) \<noteq> cur then k # opened cmp store (store (snd k)) ks
      else opened cmp store cur ks)"

text \<open>The two string operations of \<^verbatim>\<open>load_key\<close>.\<close>

abbreviation flat :: "string \<Rightarrow> string" where
  "flat \<equiv> replace CHR ''-'' CHR ''b''"

abbreviation flat_colon :: "string \<Rightarrow> string" where
  "flat_colon \<equiv> (\<lambda>s. replace CHR '' '' CHR '':'' (replace CHR ''-'' CHR ''b'' s))"

section \<open>The specification's collapser\<close>

text \<open>
  The interval of the specification's data model, and its algorithm, written from the
  specification's four steps: a pending interval starting at tick 0 with the normalized
  label of the first event; at each later event whose normalized label differs, the
  pending interval is closed one tick before the event and a new one is opened at the
  event; the last pending interval is closed at the time of the last event. Empty and
  unsorted inputs are \<open>InvalidInput\<close>.
\<close>

record 'l interval =
  start_time :: int
  end_time :: int
  label :: 'l

fun collapse_walk :: "('a \<Rightarrow> 'l) \<Rightarrow> int \<Rightarrow> (int \<times> 'a) list \<Rightarrow> int \<Rightarrow> 'l \<Rightarrow> 'l interval list" where
  "collapse_walk normalise final [] s l = [\<lparr>start_time = s, end_time = final, label = l\<rparr>]"
| "collapse_walk normalise final (e # es) s l =
     (if normalise (snd e) \<noteq> l
      then \<lparr>start_time = s, end_time = fst e - 1, label = l\<rparr>
             # collapse_walk normalise final es (fst e) (normalise (snd e))
      else collapse_walk normalise final es s l)"

definition collapse :: "('a \<Rightarrow> 'l) \<Rightarrow> (int \<times> 'a) list \<Rightarrow> error + 'l interval list" where
  "collapse normalise events =
     (if events = [] then Inl InvalidInput
      else if \<not> sorted (map fst events) then Inl InvalidInput
      else Inr (collapse_walk normalise (fst (last events)) (tl events)
                  0 (normalise (snd (hd events)))))"

text \<open>The three lists of a loader read as a list of intervals.\<close>

definition as_intervals :: "collapsed \<Rightarrow> string interval list" where
  "as_intervals = (\<lambda>(start_times, end_times, names).
     map (\<lambda>(s, e, l). \<lparr>start_time = s, end_time = e, label = l\<rparr>)
       (zip start_times (zip end_times names)))"

text \<open>The number of maximal runs of equal consecutive elements of a list.\<close>

fun run_count :: "'l list \<Rightarrow> nat" where
  "run_count [] = 0"
| "run_count [x] = 1"
| "run_count (x # y # ys) = (if x = y then run_count (y # ys) else Suc (run_count (y # ys)))"

text \<open>
  The ticks at which the maximal runs after the first begin: the times of the events
  whose normalized label differs from that of the event before them.
\<close>

fun later_run_starts :: "('a \<Rightarrow> 'l) \<Rightarrow> (int \<times> 'a) list \<Rightarrow> int list" where
  "later_run_starts normalise (e # e' # es) =
     (if normalise (snd e') \<noteq> normalise (snd e)
      then fst e' # later_run_starts normalise (e' # es)
      else later_run_starts normalise (e' # es))"
| "later_run_starts normalise _ = []"

text \<open>How many of the intervals contain the tick \<open>t\<close>, both ends included.\<close>

definition covering :: "int \<Rightarrow> (int \<times> int) list \<Rightarrow> nat" where
  "covering t ivs = length (filter (\<lambda>(s, e). s \<le> t \<and> t \<le> e) ivs)"

section \<open>Lemmas on the loop\<close>

lemma foldl_enumerate_nth:
  assumes "\<And>s i. i < length xs \<Longrightarrow> f s (i, xs ! i) = g s (xs ! i)"
  shows "foldl f s (enumerate 0 xs) = foldl g s xs"
proof -
  have "foldl f s (enumerate 0 xs) = foldl (\<lambda>s p. g s (snd p)) s (enumerate 0 xs)"
    by (rule foldl_cong) (auto simp: in_set_enumerate_eq assms)
  also have "\<dots> = foldl g s (map snd (enumerate 0 xs))"
    by (rule foldl_map [symmetric])
  finally show ?thesis by simp
qed

lemma key_loop:
  "foldl (key_step keys) s (enumerate 0 keys) = foldl (step flat flat_colon) s keys"
  by (rule foldl_enumerate_nth)
    (simp add: key_step_def step_def split: prod.splits)

lemma chord_loop:
  "foldl (chord_step chords) s (enumerate 0 chords) = foldl (step (\<lambda>x. x) (\<lambda>x. x)) s chords"
  by (rule foldl_enumerate_nth) (simp add: chord_step_def step_def split: prod.splits)

lemma foldl_step:
  "foldl (step cmp store) (S, E, N @ [c]) ks =
     (S @ map fst (opened cmp store c ks),
      E @ map (\<lambda>k. fst k - 1) (opened cmp store c ks),
      N @ [c] @ map (\<lambda>k. store (snd k)) (opened cmp store c ks))"
proof (induction ks arbitrary: S E N c)
  case Nil
  show ?case by simp
next
  case (Cons k ks)
  show ?case
  proof (cases "cmp (snd k) = c")
    case True
    then have "step cmp store (S, E, N @ [c]) k = (S, E, N @ [c])"
      by (simp add: step_def)
    then show ?thesis using Cons.IH [of S E N c] True by simp
  next
    case False
    then have "step cmp store (S, E, N @ [c]) k =
        (S @ [fst k], E @ [fst k - 1], (N @ [c]) @ [store (snd k)])"
      by (simp add: step_def)
    then show ?thesis
      using Cons.IH [of "S @ [fst k]" "E @ [fst k - 1]" "N @ [c]" "store (snd k)"] False
      by simp
  qed
qed

text \<open>The loaders in closed form: the loop state after the walk, and the final append.\<close>

lemma load_key_closed:
  assumes "keys \<noteq> []"
  shows "load_key keys =
    Inr (0 # map fst (opened flat flat_colon (flat (snd (hd keys))) keys),
         map (\<lambda>k. fst k - 1) (opened flat flat_colon (flat (snd (hd keys))) keys)
           @ [fst (last keys)],
         flat (snd (hd keys))
           # map (\<lambda>k. flat_colon (snd k)) (opened flat flat_colon (flat (snd (hd keys))) keys))"
proof -
  have "keys ! 0 = hd keys" using assms by (simp add: hd_conv_nth)
  then show ?thesis
    using assms foldl_step [of flat flat_colon "[0]" "[]" "[]" "flat (snd (hd keys))" keys]
    by (simp add: load_key_def key_loop)
qed

lemma load_chords_closed:
  assumes "chords \<noteq> []"
  shows "load_chords chords =
    Inr (0 # map fst (opened (\<lambda>x. x) (\<lambda>x. x) (snd (hd chords)) chords),
         map (\<lambda>k. fst k - 1) (opened (\<lambda>x. x) (\<lambda>x. x) (snd (hd chords)) chords)
           @ [fst (last chords)],
         snd (hd chords) # map snd (opened (\<lambda>x. x) (\<lambda>x. x) (snd (hd chords)) chords))"
proof -
  have "chords ! 0 = hd chords" using assms by (simp add: hd_conv_nth)
  then show ?thesis
    using assms foldl_step [of "\<lambda>x. x" "\<lambda>x. x" "[0]" "[]" "[]" "snd (hd chords)" chords]
    by (simp add: load_chords_def chord_loop)
qed

lemma opened_subset: "set (opened cmp store c ks) \<subseteq> set ks"
  by (induction ks arbitrary: c) auto

lemma opened_sorted:
  "sorted (map fst ks) \<Longrightarrow> sorted (map fst (opened cmp store c ks))"
proof (induction ks arbitrary: c)
  case Nil
  show ?case by simp
next
  case (Cons k ks)
  have "\<forall>x \<in> set (opened cmp store (store (snd k)) ks). fst k \<le> fst x"
    using Cons.prems opened_subset [of cmp store "store (snd k)" ks] by auto
  then show ?case using Cons by simp
qed

lemma sorted_le_last:
  "sorted (map fst ks) \<Longrightarrow> k \<in> set ks \<Longrightarrow> fst k \<le> fst (last ks)"
  by (induction ks) auto

section \<open>Lemmas on coverage\<close>

lemma covering_below:
  "sorted (s # ss) \<Longrightarrow> t < s \<Longrightarrow> covering t (zip (s # ss) (map (\<lambda>x. x - 1) ss @ [T])) = 0"
proof (induction ss arbitrary: s)
  case Nil
  then show ?case by (simp add: covering_def)
next
  case (Cons a ss)
  have "covering t (zip (a # ss) (map (\<lambda>x. x - 1) ss @ [T])) = 0"
    using Cons.prems by (intro Cons.IH) auto
  then show ?case using Cons.prems by (simp add: covering_def)
qed

lemma covering_one:
  "sorted (s # ss) \<Longrightarrow> s \<le> t \<Longrightarrow> t \<le> T \<Longrightarrow>
   covering t (zip (s # ss) (map (\<lambda>x. x - 1) ss @ [T])) = 1"
proof (induction ss arbitrary: s)
  case Nil
  then show ?case by (simp add: covering_def)
next
  case (Cons a ss)
  show ?case
  proof (cases "t < a")
    case True
    have "covering t (zip (a # ss) (map (\<lambda>x. x - 1) ss @ [T])) = 0"
      using Cons.prems True by (intro covering_below) auto
    then show ?thesis using Cons.prems True by (simp add: covering_def)
  next
    case False
    have "covering t (zip (a # ss) (map (\<lambda>x. x - 1) ss @ [T])) = 1"
      using Cons.prems False by (intro Cons.IH) auto
    then show ?thesis using Cons.prems False by (simp add: covering_def)
  qed
qed

section \<open>Lemmas on the opening annotations\<close>

lemma run_count_opened:
  "Suc (length (opened n n c ks)) = run_count (c # map (\<lambda>k. n (snd k)) ks)"
  by (induction ks arbitrary: c) auto

lemma replace_removes: "old \<noteq> new \<Longrightarrow> old \<notin> set (replace old new s)"
  by (auto simp: replace_def)

lemma replace_keeps: "c \<in> set s \<Longrightarrow> c \<noteq> old \<Longrightarrow> c \<in> set (replace old new s)"
  by (force simp: replace_def)

lemma collapse_walk_opened:
  "collapse_walk n T es s l =
     as_intervals (s # map fst (opened n n l es),
                   map (\<lambda>k. fst k - 1) (opened n n l es) @ [T],
                   l # map (\<lambda>k. n (snd k)) (opened n n l es))"
  by (induction es arbitrary: s l) (simp_all add: as_intervals_def)

lemma collapse_closed:
  assumes "ks \<noteq> []" "sorted (map fst ks)"
  shows "collapse n ks =
     Inr (as_intervals (0 # map fst (opened n n (n (snd (hd ks))) ks),
                   map (\<lambda>k. fst k - 1) (opened n n (n (snd (hd ks))) ks) @ [fst (last ks)],
                   n (snd (hd ks)) # map (\<lambda>k. n (snd k)) (opened n n (n (snd (hd ks))) ks)))"
proof -
  obtain k ks' where ks: "ks = k # ks'" using assms(1) by (cases ks) auto
  have "opened n n (n (snd k)) (k # ks') = opened n n (n (snd k)) ks'" by simp
  then show ?thesis using assms
    unfolding ks collapse_def by (simp add: collapse_walk_opened del: opened.simps)
qed

lemma load_chords_run_count:
  assumes "chords \<noteq> []" "load_chords chords = Inr (start_times, end_times, chord_names)"
  shows "length chord_names = run_count (map chord chords)"
proof -
  obtain k ks' where ks: "chords = k # ks'" using assms(1) by (cases chords) auto
  have "Suc (length (opened (\<lambda>x. x) (\<lambda>x. x) (snd k) ks')) = run_count (snd k # map snd ks')"
    by (rule run_count_opened)
  then show ?thesis using assms(2) unfolding ks by (auto simp: load_chords_closed)
qed

lemma ends_before_later_starts:
  fixes ss :: "annotation list"
  assumes "sorted (map fst ss)" "i < j" "j < Suc (length ss)"
  shows "(map (\<lambda>k. fst k - 1) ss @ [T]) ! i < (s # map fst ss) ! j"
proof -
  obtain j' where j: "j = Suc j'" using assms(2) by (cases j) auto
  have "i \<le> j'" "j' < length ss" using assms(2,3) j by auto
  then have "map fst ss ! i \<le> map fst ss ! j'"
    using assms(1) by (simp add: sorted_iff_nth_mono del: nth_map)
  moreover have "i < length ss" using \<open>i \<le> j'\<close> \<open>j' < length ss\<close> by simp
  ultimately show ?thesis using \<open>j' < length ss\<close> by (simp add: j nth_append)
qed

lemma covering_opened:
  assumes "sorted (map fst ks)" "\<forall>k\<in>set ks. 0 \<le> fst k" "k \<in> set ks"
  shows "covering (fst k)
           (zip (0 # map fst (opened cmp store c ks))
                (map (\<lambda>k. fst k - 1) (opened cmp store c ks) @ [fst (last ks)])) = 1"
proof -
  let ?ss = "map fst (opened cmp store c ks)"
  have "\<forall>x\<in>set ?ss. 0 \<le> x"
    using assms(2) opened_subset [of cmp store c ks] by auto
  then have "sorted (0 # ?ss)"
    using opened_sorted [OF assms(1), of cmp store c] by simp
  moreover have "0 \<le> fst k" using assms(2,3) by blast
  moreover have "fst k \<le> fst (last ks)" using assms(1,3) by (rule sorted_le_last)
  ultimately have "covering (fst k) (zip (0 # ?ss) (map (\<lambda>x. x - 1) ?ss @ [fst (last ks)])) = 1"
    by (rule covering_one)
  then show ?thesis by (simp add: comp_def)
qed

text \<open>
  What \<^verbatim>\<open>load_chords\<close> does with runs: its end times before the last are one less
  than the ticks at which the later maximal runs begin, and on a non-empty list with
  non-decreasing times it returns what the specification's collapser returns under the
  identity.
\<close>

lemma opened_later_run_starts:
  "map fst (opened n n (n (snd e)) es) = later_run_starts n (e # es)"
  by (induction es arbitrary: e) auto

lemma load_chords_end_boundaries:
  assumes "load_chords chords = Inr (start_times, end_times, chord_names)"
  shows "last end_times = time (last chords) \<and>
         butlast end_times = map (\<lambda>t. t - 1) (later_run_starts (\<lambda>x. x) chords)"
proof -
  have ne: "chords \<noteq> []" using assms by (auto simp: load_chords_def)
  then obtain k ks' where ks: "chords = k # ks'" by (cases chords) auto
  have "map fst (opened (\<lambda>x. x) (\<lambda>x. x) (snd k) ks') = later_run_starts (\<lambda>x. x) (k # ks')"
    by (rule opened_later_run_starts)
  then have "map (\<lambda>k. fst k - 1) (opened (\<lambda>x. x) (\<lambda>x. x) (snd k) ks')
      = map (\<lambda>t. t - 1) (later_run_starts (\<lambda>x. x) (k # ks'))"
    by (metis (no_types, lifting) map_map comp_apply map_eq_conv)
  then show ?thesis using assms unfolding ks by (auto simp: load_chords_closed)
qed

lemma load_chords_refines_collapse:
  assumes "chords \<noteq> []" "sorted (map time chords)"
  shows "map_sum id as_intervals (load_chords chords) = collapse id chords"
  using assms unfolding id_def by (simp add: load_chords_closed collapse_closed)

text \<open>The loop never reads a time: changing the times changes nothing but the copies.\<close>

lemma opened_apfst:
  "opened cmp store c (map (apfst f) ks) = map (apfst f) (opened cmp store c ks)"
  by (induction ks arbitrary: c) auto

text \<open>
  The collapser written from the specification returns what the specification's own
  examples say: the two-run case, the merge under normalization, the single-run case.
\<close>

lemma collapse_examples:
  "collapse (\<lambda>x. x) [(0, ''C''), (5, ''C''), (6, ''G''), (20, ''G'')] =
    Inr [\<lparr>start_time = 0, end_time = 5, label = ''C''\<rparr>, \<lparr>start_time = 6, end_time = 20, label = ''G''\<rparr>]"
  "collapse (replace CHR ''-'' CHR ''b'') [(0, ''B-''), (4, ''Bb'')] =
    Inr [\<lparr>start_time = 0, end_time = 4, label = ''Bb''\<rparr>]"
  "collapse (\<lambda>x. x) [(0, ''C''), (10, ''C''), (20, ''C'')] =
    Inr [\<lparr>start_time = 0, end_time = 20, label = ''C''\<rparr>]"
  by (simp_all add: collapse_def replace_def)

section \<open>Claims\<close>

text \<open>
  C5. For every non-empty annotation list, the first start time returned by
  \<^verbatim>\<open>load_key\<close> and by \<^verbatim>\<open>load_chords\<close> is 0, whatever the time of the first
  annotation is.
\<close>

theorem first_start_zero:
  "keys \<noteq> [] \<Longrightarrow>
     (\<exists>start_times end_times key_names.
        load_key keys = Inr (start_times, end_times, key_names) \<and> hd start_times = 0) \<and>
     (\<exists>start_times end_times chord_names.
        load_chords keys = Inr (start_times, end_times, chord_names) \<and> hd start_times = 0)"
  by (simp add: load_key_closed load_chords_closed)

theorem first_start_zero_witness:
  "[(7, ''G major'')] \<noteq> ([] :: annotation list) \<and>
     (\<exists>start_times end_times key_names.
        load_key [(7, ''G major'')] = Inr (start_times, end_times, key_names) \<and>
        hd start_times = 0) \<and>
     (\<exists>start_times end_times chord_names.
        load_chords [(7, ''G major'')] = Inr (start_times, end_times, chord_names) \<and>
        hd start_times = 0)"
  using first_start_zero [of "[(7, ''G major'')]"] by simp

text \<open>
  C10. For every non-empty annotation list, the three lists returned by \<^verbatim>\<open>load_key\<close>
  and by \<^verbatim>\<open>load_chords\<close> have the same length, and so the array of
  (start, end) rows has as many rows as there are labels.
\<close>

theorem parallel_lengths:
  "keys \<noteq> [] \<Longrightarrow>
     (\<exists>start_times end_times key_names.
        load_key keys = Inr (start_times, end_times, key_names) \<and>
        length start_times = length key_names \<and> length end_times = length key_names \<and>
        length (intervals (start_times, end_times, key_names)) = length key_names) \<and>
     (\<exists>start_times end_times chord_names.
        load_chords keys = Inr (start_times, end_times, chord_names) \<and>
        length start_times = length chord_names \<and> length end_times = length chord_names \<and>
        length (intervals (start_times, end_times, chord_names)) = length chord_names)"
  by (simp add: load_key_closed load_chords_closed intervals_def)

theorem parallel_lengths_witness:
  "[(0, ''C major''), (28, ''G major''), (56, ''G major'')] \<noteq> ([] :: annotation list) \<and>
     (\<exists>start_times end_times key_names.
        load_key [(0, ''C major''), (28, ''G major''), (56, ''G major'')]
          = Inr (start_times, end_times, key_names) \<and>
        length start_times = length key_names \<and> length end_times = length key_names \<and>
        length (intervals (start_times, end_times, key_names)) = length key_names) \<and>
     (\<exists>start_times end_times chord_names.
        load_chords [(0, ''C major''), (28, ''G major''), (56, ''G major'')]
          = Inr (start_times, end_times, chord_names) \<and>
        length start_times = length chord_names \<and> length end_times = length chord_names \<and>
        length (intervals (start_times, end_times, chord_names)) = length chord_names)"
  using parallel_lengths [of "[(0, ''C major''), (28, ''G major''), (56, ''G major'')]"]
  by simp

text \<open>
  C1. Two consecutive annotations with the same key ought to stay in one interval. In
  \<^verbatim>\<open>load_key\<close> they do not once the key has changed: the stored name has its space
  replaced by a colon, the compared one has not, so \<open>''Bb major''\<close> is compared with
  \<open>''Bb:major''\<close> and the second \<open>B- major\<close> annotation opens an interval of its own.
\<close>

theorem load_key_splits_equal_keys:
  "load_key [(0, ''C major''), (4, ''B- major''), (8, ''B- major'')] =
     Inr ([0, 4, 8], [3, 7, 8], [''C major'', ''Bb:major'', ''Bb:major''])"
  by (simp add: load_key_def key_step_def replace_def)

text \<open>
  C3. The number of intervals ought to be the number of maximal runs of equal normalized
  labels. On four annotations in two runs \<^verbatim>\<open>load_key\<close> returns four intervals; the
  run count is 2 under either of the two normalizations the function applies.
\<close>

theorem load_key_run_count_fails:
  "load_key [(0, ''C major''), (28, ''G major''), (56, ''G major''), (84, ''G major'')] =
     Inr ([0, 28, 56, 84], [27, 55, 83, 84],
          [''C major'', ''G:major'', ''G:major'', ''G:major'']) \<and>
   run_count (map (\<lambda>k. flat (key k))
     [(0, ''C major''), (28, ''G major''), (56, ''G major''), (84, ''G major'')]) = 2 \<and>
   run_count (map (\<lambda>k. flat_colon (key k))
     [(0, ''C major''), (28, ''G major''), (56, ''G major''), (84, ''G major'')]) = 2"
  by (simp add: load_key_def key_step_def replace_def)

text \<open>
  C4. For every non-empty annotation list with non-decreasing, non-negative ticks, the
  time of every annotation lies in exactly one of the returned intervals, both ends
  included: among the rows (start, end) exactly one has start \<open>\<le>\<close> time \<open>\<le>\<close> end.
  Ticks are non-negative in the data model; the model's integers are not, so the bound is
  a hypothesis.
\<close>

theorem coverage:
  assumes "keys \<noteq> []" "sorted (map time keys)" "\<forall>k\<in>set keys. 0 \<le> time k" "k \<in> set keys"
  shows "(\<exists>start_times end_times key_names.
            load_key keys = Inr (start_times, end_times, key_names) \<and>
            covering (time k) (intervals (start_times, end_times, key_names)) = 1) \<and>
         (\<exists>start_times end_times chord_names.
            load_chords keys = Inr (start_times, end_times, chord_names) \<and>
            covering (time k) (intervals (start_times, end_times, chord_names)) = 1)"
  using assms(1) covering_opened [OF assms(2-4)]
  by (simp add: load_key_closed load_chords_closed intervals_def)

theorem coverage_witness:
  "(\<exists>start_times end_times key_names.
      load_key [(3, ''C major''), (28, ''G major''), (56, ''G major'')]
        = Inr (start_times, end_times, key_names) \<and>
      covering 28 (intervals (start_times, end_times, key_names)) = 1) \<and>
   (\<exists>start_times end_times chord_names.
      load_chords [(3, ''C major''), (28, ''G major''), (56, ''G major'')]
        = Inr (start_times, end_times, chord_names) \<and>
      covering 28 (intervals (start_times, end_times, chord_names)) = 1)"
  using coverage [of "[(3, ''C major''), (28, ''G major''), (56, ''G major'')]" "(28, ''G major'')"]
  by simp

text \<open>
  C7. For every non-empty annotation list with non-decreasing, non-negative ticks, the
  start times are returned in non-decreasing order, and every interval ends strictly
  before each later interval starts.
\<close>

theorem ordered_disjoint:
  assumes "keys \<noteq> []" "sorted (map time keys)" "\<forall>k\<in>set keys. 0 \<le> time k"
  shows "(\<exists>start_times end_times key_names.
            load_key keys = Inr (start_times, end_times, key_names) \<and>
            sorted start_times \<and>
            (\<forall>i j. i < j \<and> j < length start_times \<longrightarrow> end_times ! i < start_times ! j)) \<and>
         (\<exists>start_times end_times chord_names.
            load_chords keys = Inr (start_times, end_times, chord_names) \<and>
            sorted start_times \<and>
            (\<forall>i j. i < j \<and> j < length start_times \<longrightarrow> end_times ! i < start_times ! j))"
proof -
  have srt: "sorted (0 # map fst (opened cmp store c keys))" for cmp store c
  proof -
    have "\<forall>x\<in>set (map fst (opened cmp store c keys)). 0 \<le> x"
      using assms(3) opened_subset [of cmp store c keys] by auto
    then show ?thesis using opened_sorted [OF assms(2), of cmp store c] by simp
  qed
  have dis: "\<forall>i j. i < j \<and> j < length (0 # map fst (opened cmp store c keys)) \<longrightarrow>
      (map (\<lambda>k. fst k - 1) (opened cmp store c keys) @ [T]) ! i
        < (0 # map fst (opened cmp store c keys)) ! j" for cmp store c T
  proof (intro allI impI)
    fix i j
    assume "i < j \<and> j < length (0 # map fst (opened cmp store c keys))"
    then have "i < j" "j < Suc (length (opened cmp store c keys))" by simp_all
    then show "(map (\<lambda>k. fst k - 1) (opened cmp store c keys) @ [T]) ! i
        < (0 # map fst (opened cmp store c keys)) ! j"
      by (rule ends_before_later_starts [OF opened_sorted [OF assms(2)]])
  qed
  show ?thesis
    using assms(1) srt dis
    by (simp add: load_key_closed load_chords_closed)
qed

theorem ordered_disjoint_witness:
  "(\<exists>start_times end_times key_names.
      load_key [(3, ''C major''), (28, ''G major''), (56, ''G major'')]
        = Inr (start_times, end_times, key_names) \<and>
      sorted start_times \<and>
      (\<forall>i j. i < j \<and> j < length start_times \<longrightarrow> end_times ! i < start_times ! j)) \<and>
   (\<exists>start_times end_times chord_names.
      load_chords [(3, ''C major''), (28, ''G major''), (56, ''G major'')]
        = Inr (start_times, end_times, chord_names) \<and>
      sorted start_times \<and>
      (\<forall>i j. i < j \<and> j < length start_times \<longrightarrow> end_times ! i < start_times ! j))"
  using ordered_disjoint [of "[(3, ''C major''), (28, ''G major''), (56, ''G major'')]"]
  by simp

text \<open>
  C9. In \<^verbatim>\<open>load_key\<close> the first name returned is the first key with \<open>-\<close> replaced by
  \<open>b\<close> and its spaces kept; every later name is the key of the annotation that opened
  the interval with \<open>-\<close> replaced by \<open>b\<close> and then every space replaced by \<open>:\<close>. Hence,
  when the first key contains a space, no later name equals the first name.
\<close>

theorem key_label_formats:
  assumes "keys \<noteq> []"
  shows "\<exists>start_times end_times key_names.
           load_key keys = Inr (start_times, end_times, key_names) \<and>
           hd key_names = replace CHR ''-'' CHR ''b'' (key (hd keys)) \<and>
           (\<forall>i. 0 < i \<and> i < length key_names \<longrightarrow>
              (\<exists>k\<in>set keys. start_times ! i = time k \<and>
                 key_names ! i = replace CHR '' '' CHR '':'' (replace CHR ''-'' CHR ''b'' (key k)))) \<and>
           (CHR '' '' \<in> set (key (hd keys)) \<longrightarrow>
              (\<forall>i. 0 < i \<and> i < length key_names \<longrightarrow> key_names ! i \<noteq> hd key_names))"
proof -
  let ?os = "opened flat flat_colon (flat (snd (hd keys))) keys"
  let ?N = "flat (snd (hd keys)) # map (\<lambda>k. flat_colon (snd k)) ?os"
  let ?S = "0 # map fst ?os"
  have later: "\<exists>k\<in>set keys. ?S ! i = time k \<and> ?N ! i = flat_colon (key k)"
    if "0 < i \<and> i < length ?N" for i
  proof -
    define m where "m = i - 1"
    have m: "i = Suc m" "m < length ?os" using that by (auto simp: m_def)
    have "?os ! m \<in> set keys" using m(2) opened_subset [of flat flat_colon _ keys] nth_mem by blast
    then show ?thesis using m by (intro bexI [of _ "?os ! m"]) simp_all
  qed
  have differ: "?N ! i \<noteq> hd ?N" if sp: "CHR '' '' \<in> set (key (hd keys))" and i: "0 < i \<and> i < length ?N" for i
  proof -
    obtain k where "?N ! i = flat_colon (key k)" using later [OF i] by blast
    then have "CHR '' '' \<notin> set (?N ! i)" by (simp add: replace_removes)
    moreover have "CHR '' '' \<in> set (hd ?N)" using sp by (simp add: replace_keeps)
    ultimately show ?thesis by metis
  qed
  show ?thesis
    unfolding load_key_closed [OF assms]
    using later differ by (intro exI [of _ ?S] exI [of _ ?N] exI) (simp del: nth_Cons_Suc)
qed

theorem key_label_formats_witness:
  "\<exists>start_times end_times key_names.
     load_key [(0, ''C major''), (28, ''G major''), (56, ''C major'')]
       = Inr (start_times, end_times, key_names) \<and>
     hd key_names = replace CHR ''-'' CHR ''b'' ''C major'' \<and>
     (\<forall>i. 0 < i \<and> i < length key_names \<longrightarrow>
        (\<exists>k\<in>set [(0, ''C major''), (28, ''G major''), (56, ''C major'')].
           start_times ! i = time k \<and>
           key_names ! i = replace CHR '' '' CHR '':'' (replace CHR ''-'' CHR ''b'' (key k)))) \<and>
     (\<forall>i. 0 < i \<and> i < length key_names \<longrightarrow> key_names ! i \<noteq> hd key_names)"
  using key_label_formats [of "[(0, ''C major''), (28, ''G major''), (56, ''C major'')]"]
  by simp

text \<open>
  C2 as stated fails: on a list whose times decrease the code of both loaders raises
  nothing and builds its three lists, and the failure on the empty list is not
  \<open>InvalidInput\<close>.
\<close>

theorem unsorted_input_accepted:
  "\<not> sorted (map time [(5, ''C''), (3, ''G'')]) \<and>
   load_key [(5, ''C''), (3, ''G'')] = Inr ([0, 3], [2, 3], [''C'', ''G'']) \<and>
   load_chords [(5, ''C''), (3, ''G'')] = Inr ([0, 3], [2, 3], [''C'', ''G'']) \<and>
   load_key [] \<noteq> Inl InvalidInput \<and> load_chords [] \<noteq> Inl InvalidInput"
  by (simp add: load_key_def load_chords_def key_step_def chord_step_def replace_def)

text \<open>
  C2, as the code has it. On the empty list the code of both loaders fails at once with
  the out-of-range error of \<^verbatim>\<open>keys[0]\<close>, not with \<open>InvalidInput\<close>, before any list
  is built. It makes no test of the order of the times, for it never reads a time except
  to copy it: when the times of a list are changed by any function \<open>f\<close>, order kept or
  not, intervals are opened at the same annotations and the names are the same; the
  start times after the first are the changed ticks, each end time but the last is the
  next start less one, and the last end time is the changed tick of the last annotation.
\<close>

theorem no_order_check:
  "load_key [] = Inl IndexError \<and> load_chords [] = Inl IndexError \<and>
   (load_key ks = Inr (start_times, end_times, key_names) \<longrightarrow>
      load_key (map (apfst f) ks) =
        Inr (0 # map f (tl start_times),
             map (\<lambda>t. f t - 1) (tl start_times) @ [f (time (last ks))],
             key_names)) \<and>
   (load_chords ks = Inr (start_times', end_times', chord_names) \<longrightarrow>
      load_chords (map (apfst f) ks) =
        Inr (0 # map f (tl start_times'),
             map (\<lambda>t. f t - 1) (tl start_times') @ [f (time (last ks))],
             chord_names))"
proof -
  have empty: "load_key [] = Inl IndexError" "load_chords [] = Inl IndexError"
    by (simp_all add: load_key_def load_chords_def)
  have keys: "load_key (map (apfst f) ks) =
        Inr (0 # map f (tl start_times),
             map (\<lambda>t. f t - 1) (tl start_times) @ [f (time (last ks))], key_names)"
    if h: "load_key ks = Inr (start_times, end_times, key_names)"
  proof -
    have ne: "ks \<noteq> []" using h empty by auto
    then have "map (apfst f) ks \<noteq> []" by simp
    moreover have "snd (hd (map (apfst f) ks)) = snd (hd ks)"
      "fst (last (map (apfst f) ks)) = f (fst (last ks))"
      using ne by (simp_all add: hd_map last_map)
    ultimately show ?thesis
      using h ne by (auto simp: load_key_closed opened_apfst comp_def)
  qed
  have chords: "load_chords (map (apfst f) ks) =
        Inr (0 # map f (tl start_times'),
             map (\<lambda>t. f t - 1) (tl start_times') @ [f (time (last ks))], chord_names)"
    if h: "load_chords ks = Inr (start_times', end_times', chord_names)"
  proof -
    have ne: "ks \<noteq> []" using h empty by auto
    then have "map (apfst f) ks \<noteq> []" by simp
    moreover have "snd (hd (map (apfst f) ks)) = snd (hd ks)"
      "fst (last (map (apfst f) ks)) = f (fst (last ks))"
      using ne by (simp_all add: hd_map last_map)
    ultimately show ?thesis
      using h ne by (auto simp: load_chords_closed opened_apfst comp_def)
  qed
  show ?thesis using empty keys chords by blast
qed

theorem no_order_check_witness:
  "load_key [] = Inl IndexError \<and> load_chords [] = Inl IndexError \<and>
   load_key [(5, ''C major''), (3, ''G major'')] =
     Inr ([0, 3], [2, 3], [''C major'', ''G:major'']) \<and>
   load_chords [(5, ''C major''), (3, ''G major'')] =
     Inr ([0, 3], [2, 3], [''C major'', ''G major''])"
proof -
  have k: "load_key [(3, ''C major''), (5, ''G major'')] =
      Inr ([0, 5], [4, 5], [''C major'', ''G:major''])"
    by (simp add: load_key_def key_step_def replace_def)
  have c: "load_chords [(3, ''C major''), (5, ''G major'')] =
      Inr ([0, 5], [4, 5], [''C major'', ''G major''])"
    by (simp add: load_chords_def chord_step_def)
  show ?thesis
    using no_order_check [of "[(3, ''C major''), (5, ''G major'')]"
        "[0, 5]" "[4, 5]" "[''C major'', ''G:major'']" "(-) 8"
        "[0, 5]" "[4, 5]" "[''C major'', ''G major'']"] k c
    by simp
qed

text \<open>
  C6. Every end time but the last ought to be one less than the time of the first event
  of the following run. In \<^verbatim>\<open>load_key\<close> it is not: on three annotations in two runs,
  the second run beginning at tick 28, the end times returned are 27, 55 and 56, and
  55 is one less than tick 56, which lies inside the second run. The cause is the
  comparison of C1. The last end time, 56, is the time of the last annotation.
\<close>

theorem load_key_end_inside_run:
  "load_key [(0, ''C major''), (28, ''G major''), (56, ''G major'')] =
     Inr ([0, 28, 56], [27, 55, 56], [''C major'', ''G:major'', ''G:major'']) \<and>
   later_run_starts (replace CHR ''-'' CHR ''b'')
     [(0, ''C major''), (28, ''G major''), (56, ''G major'')] = [28] \<and>
   later_run_starts (replace CHR '' '' CHR '':'' \<circ> replace CHR ''-'' CHR ''b'')
     [(0, ''C major''), (28, ''G major''), (56, ''G major'')] = [28]"
  by (simp add: load_key_def key_step_def replace_def)

text \<open>
  C8. \<^verbatim>\<open>load_key\<close> ought to return what the specification's collapser returns under
  the normalization of the key. On a sorted list in two runs it returns three intervals
  where the collapser returns two, under the replacement of \<open>-\<close> alone and under both
  replacements. The cause is the comparison of C1.
\<close>

theorem load_key_differs_from_collapse:
  "map_sum id as_intervals (load_key [(0, ''C major''), (4, ''G major''), (8, ''G major'')]) =
     Inr [\<lparr>start_time = 0, end_time = 3, label = ''C major''\<rparr>,
          \<lparr>start_time = 4, end_time = 7, label = ''G:major''\<rparr>,
          \<lparr>start_time = 8, end_time = 8, label = ''G:major''\<rparr>] \<and>
   collapse (replace CHR ''-'' CHR ''b'') [(0, ''C major''), (4, ''G major''), (8, ''G major'')] =
     Inr [\<lparr>start_time = 0, end_time = 3, label = ''C major''\<rparr>,
          \<lparr>start_time = 4, end_time = 8, label = ''G major''\<rparr>] \<and>
   collapse (replace CHR '' '' CHR '':'' \<circ> replace CHR ''-'' CHR ''b'')
       [(0, ''C major''), (4, ''G major''), (8, ''G major'')] =
     Inr [\<lparr>start_time = 0, end_time = 3, label = ''C:major''\<rparr>,
          \<lparr>start_time = 4, end_time = 8, label = ''G:major''\<rparr>]"
  by (simp add: load_key_def key_step_def replace_def collapse_def as_intervals_def)

end
